theory Spec2Isabelle
  imports Complex_Main
begin

section \<open>Python floats as IEEE 754 binary64 values\<close>

text \<open>
  A Python \<open>float\<close> is a binary64 number. A finite one is kept as sign, mantissa and
  exponent, with value \<open>(-1)^s * m * 2^e\<close>, in normal form: either \<open>m = 0\<close> and \<open>e = 0\<close>
  (the two zeros), or \<open>2^52 \<le> m < 2^53\<close> and \<open>-1074 \<le> e \<le> 971\<close>, or \<open>m < 2^52\<close> and
  \<open>e = -1074\<close> (subnormal). The sign is \<open>True\<close> for a negative number, so \<open>0.0\<close> and
  \<open>-0.0\<close> are different values.
\<close>

datatype pyfloat = Finite bool int int | Infinity bool | NaN

datatype error = ZeroDivisionError | OverflowError | ValueError

function bitlen :: "int \<Rightarrow> int" where
  "bitlen n = (if n \<le> 0 then 0 else 1 + bitlen (n div 2))"
  by pat_completeness auto
termination
  by (relation "measure nat") auto

function pow2 :: "int \<Rightarrow> int" where
  "pow2 e = (if e \<le> 0 then 1 else 2 * pow2 (e - 1))"
  by pat_completeness auto
termination
  by (relation "measure nat") auto

text \<open>The quotient \<open>n / d\<close> rounded to the nearest integer, a tie going to the even one.\<close>

definition round_half_even :: "int \<Rightarrow> int \<Rightarrow> int" where
  "round_half_even n d =
     (let q = n div d; r = n mod d
      in if 2 * r < d then q
         else if d < 2 * r then q + 1
         else if even q then q else q + 1)"

text \<open>
  The binary64 number nearest to \<open>(-1)^s * p / q\<close> (\<open>0 \<le> p\<close>, \<open>0 < q\<close>), round to nearest,
  ties to even, as every basic operation of IEEE 754 rounds its exact result. \<open>k\<close> is
  the binary exponent of \<open>p / q\<close>, \<open>e\<close> the exponent of the last mantissa bit.
\<close>

definition round_to_float :: "bool \<Rightarrow> int \<Rightarrow> int \<Rightarrow> pyfloat" where
  "round_to_float s p q =
     (if p = 0 then Finite s 0 0
      else
        let k0 = bitlen p - bitlen q;
            k = (if q * pow2 k0 \<le> p * pow2 (- k0) then k0 else k0 - 1);
            e = max (k - 52) (- 1074);
            m = round_half_even (p * pow2 (- e)) (q * pow2 e);
            m' = (if m = pow2 53 then pow2 52 else m);
            e' = (if m = pow2 53 then e + 1 else e)
        in if 971 < e' then Infinity s
           else if m' = 0 then Finite s 0 0
           else Finite s m' e')"

text \<open>\<open>float * float\<close>: never raises; an overflow gives an infinity.\<close>

fun float_mul :: "pyfloat \<Rightarrow> pyfloat \<Rightarrow> pyfloat" where
  "float_mul NaN _ = NaN"
| "float_mul _ NaN = NaN"
| "float_mul (Infinity s) (Infinity t) = Infinity (s \<noteq> t)"
| "float_mul (Infinity s) (Finite t m e) = (if m = 0 then NaN else Infinity (s \<noteq> t))"
| "float_mul (Finite s m e) (Infinity t) = (if m = 0 then NaN else Infinity (s \<noteq> t))"
| "float_mul (Finite s m e) (Finite t n f) =
     round_to_float (s \<noteq> t) (m * n * pow2 (e + f)) (pow2 (- (e + f)))"

text \<open>\<open>float / float\<close>: a zero divisor raises \<open>ZeroDivisionError\<close>.\<close>

fun float_truediv :: "pyfloat \<Rightarrow> pyfloat \<Rightarrow> error + pyfloat" where
  "float_truediv x (Finite t n f) =
     (if n = 0 then Inl ZeroDivisionError
      else case x of
        NaN \<Rightarrow> Inr NaN
      | Infinity s \<Rightarrow> Inr (Infinity (s \<noteq> t))
      | Finite s m e \<Rightarrow> Inr (round_to_float (s \<noteq> t) (m * pow2 (e - f)) (n * pow2 (f - e))))"
| "float_truediv NaN _ = Inr NaN"
| "float_truediv _ NaN = Inr NaN"
| "float_truediv (Infinity s) (Infinity t) = Inr NaN"
| "float_truediv (Finite s m e) (Infinity t) = Inr (Finite (s \<noteq> t) 0 0)"

text \<open>
  An \<open>int\<close> operand of a float operation is converted first; an \<open>int\<close> beyond the range
  of binary64 raises \<open>OverflowError\<close>.
\<close>

definition int_to_float :: "int \<Rightarrow> error + pyfloat" where
  "int_to_float n =
     (case round_to_float (n < 0) \<bar>n\<bar> 1 of
        Infinity _ \<Rightarrow> Inl OverflowError
      | x \<Rightarrow> Inr x)"

text \<open>\<open>int / int\<close>: the exact quotient, rounded once.\<close>

definition int_truediv :: "int \<Rightarrow> int \<Rightarrow> error + pyfloat" where
  "int_truediv a b =
     (if b = 0 then Inl ZeroDivisionError
      else case round_to_float ((a < 0) \<noteq> (b < 0)) \<bar>a\<bar> \<bar>b\<bar> of
        Infinity _ \<Rightarrow> Inl OverflowError
      | x \<Rightarrow> Inr x)"

text \<open>\<open>math.pi\<close>, the float written \<open>3.141592653589793\<close>.\<close>

definition math_pi :: pyfloat where
  "math_pi = round_to_float False 3141592653589793 1000000000000000"

definition bind :: "error + 'a \<Rightarrow> ('a \<Rightarrow> error + 'b) \<Rightarrow> error + 'b" where
  "bind r f = (case r of Inl e \<Rightarrow> Inl e | Inr x \<Rightarrow> f x)"

section \<open>The unit converters\<close>

text \<open>\<^verbatim>\<open>degs = (180 / 750) * hw\<close>\<close>

definition hwians_to_degs :: "int \<Rightarrow> error + pyfloat" where
  "hwians_to_degs hw =
     bind (int_truediv 180 750) (\<lambda>c.
     bind (int_to_float hw) (\<lambda>h.
     Inr (float_mul c h)))"

text \<open>\<^verbatim>\<open>rads = (math.pi / 750) * hw\<close>\<close>

definition hwians_to_rads :: "int \<Rightarrow> error + pyfloat" where
  "hwians_to_rads hw =
     bind (int_to_float 750) (\<lambda>d.
     bind (float_truediv math_pi d) (\<lambda>c.
     bind (int_to_float hw) (\<lambda>h.
     Inr (float_mul c h))))"

text \<open>
  The converters as the specification words them, for comparison with the two above:
  \<^verbatim>\<open>unit * 180.0 / 750.0\<close> and \<^verbatim>\<open>unit * math.pi / 750.0\<close>, evaluated from left to right.
\<close>

definition spec_unit_to_degrees :: "int \<Rightarrow> error + pyfloat" where
  "spec_unit_to_degrees unit =
     bind (int_to_float unit) (\<lambda>u.
     float_truediv (float_mul u (round_to_float False 180 1)) (round_to_float False 750 1))"

definition spec_unit_to_radians :: "int \<Rightarrow> error + pyfloat" where
  "spec_unit_to_radians unit =
     bind (int_to_float unit) (\<lambda>u.
     float_truediv (float_mul u math_pi) (round_to_float False 750 1))"

text \<open>
  The position of a finite float in the ascending enumeration of all binary64 numbers:
  neighbouring floats differ by one, so a difference of positions is a distance in
  units in the last place.
\<close>

fun float_ordinal :: "pyfloat \<Rightarrow> int" where
  "float_ordinal (Finite s m e) =
     (let k = (e + 1074) * pow2 52 + m in if s then - k else k)"
| "float_ordinal _ = 0"

text \<open>\<open>x <= y\<close> on floats: false when either side is a NaN, the two zeros equal.\<close>

fun float_le :: "pyfloat \<Rightarrow> pyfloat \<Rightarrow> bool" where
  "float_le NaN _ = False"
| "float_le _ NaN = False"
| "float_le (Infinity s) (Infinity t) = (s \<or> \<not> t)"
| "float_le (Infinity s) (Finite t n f) = s"
| "float_le (Finite s m e) (Infinity t) = (\<not> t)"
| "float_le (Finite s m e) (Finite t n f) =
     ((if s then - m else m) * pow2 (e - f) \<le> (if t then - n else n) * pow2 (f - e))"

fun is_finite :: "pyfloat \<Rightarrow> bool" where
  "is_finite (Finite s m e) = True"
| "is_finite _ = False"

section \<open>The library the program calls\<close>

text \<open>
  \<open>math.sin\<close>, \<open>math.cos\<close> and \<open>math.tan\<close> are the platform's routines and \<open>{}\<close> formats
  a float with \<open>str\<close>; the program only calls them, so they are parameters here. A
  routine of \<open>math\<close> either returns a float or raises.
\<close>

record pylib =
  math_sin :: "pyfloat \<Rightarrow> error + pyfloat"
  math_cos :: "pyfloat \<Rightarrow> error + pyfloat"
  math_tan :: "pyfloat \<Rightarrow> error + pyfloat"
  float_str :: "pyfloat \<Rightarrow> string"

section \<open>Formatting\<close>

definition newline :: char where
  "newline = CHR 0x0A"

definition tab :: char where
  "tab = CHR 0x09"

definition digit_char :: "int \<Rightarrow> char" where
  "digit_char d = ''0123456789'' ! nat d"

function nat_str :: "int \<Rightarrow> string" where
  "nat_str n = (if n < 10 then [digit_char n] else nat_str (n div 10) @ [digit_char (n mod 10)])"
  by pat_completeness auto
termination
  by (relation "measure nat") auto

text \<open>\<open>str\<close> of an \<open>int\<close>.\<close>

definition int_str :: "int \<Rightarrow> string" where
  "int_str n = (if n < 0 then CHR ''-'' # nat_str (- n) else nat_str n)"

text \<open>\<open>{:w}\<close> on an \<open>int\<close>: right-aligned, padded with spaces, never cut.\<close>

definition format_int :: "nat \<Rightarrow> int \<Rightarrow> string" where
  "format_int w n = replicate (w - length (int_str n)) CHR '' '' @ int_str n"

text \<open>\<^verbatim>\<open>"{}\t; HW:{:3} Rads:{} Degs:{}".format(r, hw, rads, degs)\<close>\<close>

definition format_row :: "'a pylib_scheme \<Rightarrow> pyfloat \<Rightarrow> int \<Rightarrow> pyfloat \<Rightarrow> pyfloat \<Rightarrow> string" where
  "format_row L r hw rads degs =
     float_str L r @ [tab] @ ''; HW:'' @ format_int 3 hw
       @ '' Rads:'' @ float_str L rads @ '' Degs:'' @ float_str L degs"

section \<open>The table generator\<close>

text \<open>\<open>print\<close> appends its argument and a newline to standard output.\<close>

definition print :: "string \<Rightarrow> string \<Rightarrow> string" where
  "print s out = out @ s @ [newline]"

text \<open>\<open>range(start, stop, step)\<close> with a positive step.\<close>

function py_range :: "int \<Rightarrow> int \<Rightarrow> int \<Rightarrow> int list" where
  "py_range start stop step =
     (if step \<le> 0 \<or> stop \<le> start then [] else start # py_range (start + step) stop step)"
  by pat_completeness auto
termination
  by (relation "measure (\<lambda>(start, stop, step). nat (stop - start))") auto

text \<open>
  The body of a loop up to the string it prints: the two conversions, the trig routine
  \<open>f\<close>, the formatting. Whatever raises ends the program.
\<close>

definition table_row :: "'a pylib_scheme \<Rightarrow> (pyfloat \<Rightarrow> error + pyfloat) \<Rightarrow> int \<Rightarrow> error + string" where
  "table_row L f hw =
     bind (hwians_to_rads hw) (\<lambda>rads.
     bind (hwians_to_degs hw) (\<lambda>degs.
     bind (f rads) (\<lambda>r.
     Inr (format_row L r hw rads degs))))"

text \<open>
  A loop over the units: the state is the text on standard output; the result is that
  text and the exception that ended the loop, if one did.
\<close>

fun table_loop ::
  "'a pylib_scheme \<Rightarrow> (pyfloat \<Rightarrow> error + pyfloat) \<Rightarrow> int list \<Rightarrow> string \<Rightarrow> string \<times> error option" where
  "table_loop L f [] out = (out, None)"
| "table_loop L f (hw # hws) out =
     (case table_row L f hw of
        Inl err \<Rightarrow> (out, Some err)
      | Inr row \<Rightarrow> table_loop L f hws (print row out))"

text \<open>One pass: the header, then the loop.\<close>

definition table_pass ::
  "'a pylib_scheme \<Rightarrow> string \<Rightarrow> (pyfloat \<Rightarrow> error + pyfloat) \<Rightarrow> string \<Rightarrow> string \<times> error option" where
  "table_pass L name f out =
     table_loop L f (py_range 0 376 1) (print ('';'' @ [newline] @ '';'' @ name) out)"

text \<open>The whole program: standard output at exit and the uncaught exception, if any.\<close>

definition main :: "'a pylib_scheme \<Rightarrow> string \<times> error option" where
  "main L =
     (case table_pass L ''sin'' (math_sin L) [] of
        (out, Some err) \<Rightarrow> (out, Some err)
      | (out, None) \<Rightarrow>
     (case table_pass L ''cos'' (math_cos L) out of
        (out, Some err) \<Rightarrow> (out, Some err)
      | (out, None) \<Rightarrow>
      table_pass L ''tan'' (math_tan L) out))"

text \<open>Captured output as lines: the text between newlines.\<close>

fun lines_from :: "string \<Rightarrow> string \<Rightarrow> string list" where
  "lines_from cur [] = (if cur = [] then [] else [cur])"
| "lines_from cur (c # cs) =
     (if c = newline then cur # lines_from [] cs else lines_from (cur @ [c]) cs)"

definition lines_of :: "string \<Rightarrow> string list" where
  "lines_of out = lines_from [] out"

text \<open>
  A small library, to run the program on: the sine of \<open>x\<close> taken as \<open>x\<close>, the cosine
  as \<open>1.0\<close>, the tangent as \<open>2^51\<close> (its size next to the pole at 90 degrees), and a
  rendering of a float by its sign, mantissa and exponent.
\<close>

fun demo_str :: "pyfloat \<Rightarrow> string" where
  "demo_str (Finite s m e) =
     (if s then ''-'' else []) @ (if m = 0 then ''0.0'' else int_str m @ ''p'' @ int_str e)"
| "demo_str (Infinity s) = (if s then ''-inf'' else ''inf'')"
| "demo_str NaN = ''nan''"

definition demo_lib :: pylib where
  "demo_lib = \<lparr> math_sin = (\<lambda>x. Inr x),
                math_cos = (\<lambda>x. Inr (Finite False (pow2 52) (- 52))),
                math_tan = (\<lambda>x. Inr (Finite False (pow2 52) (- 1))),
                float_str = demo_str \<rparr>"

section \<open>Values and evaluation\<close>

text \<open>The real number a finite float stands for.\<close>

definition float_val :: "pyfloat \<Rightarrow> real" where
  "float_val x =
     (case x of
        Finite s m e \<Rightarrow> (if s then - 1 else 1) * of_int m * 2 powi e
      | _ \<Rightarrow> 0)"

text \<open>The number of binary digits of a numeral, for evaluating \<open>bitlen\<close>.\<close>

fun num_bits :: "num \<Rightarrow> int" where
  "num_bits num.One = 1"
| "num_bits (num.Bit0 n) = 1 + num_bits n"
| "num_bits (num.Bit1 n) = 1 + num_bits n"

text \<open>Two results in ascending order, both finite floats.\<close>

fun ascending_results :: "error + pyfloat \<Rightarrow> error + pyfloat \<Rightarrow> bool" where
  "ascending_results (Inr a) (Inr b) = (is_finite a \<and> is_finite b \<and> float_le a b)"
| "ascending_results _ _ = False"

text \<open>
  The units at which a converter and its specification differ, found by evaluating
  both on every unit: \<open>degs_one_below\<close> and \<open>rads_one_below\<close> list the units where the
  converter returns the float just below the specified one.
\<close>

definition degs_one_below :: "int list" where
  "degs_one_below =
     [11, 15, 22, 27, 30, 31, 37, 44, 45, 53, 54, 60, 61, 62, 74, 81, 83, 88, 90, 97, 99, 106,
      108, 113, 115, 120, 122, 124, 129, 131, 133, 137, 141, 148, 155, 162, 166, 169, 173,
      176, 180, 187, 191, 194, 198, 201, 205, 212, 216, 219, 223, 226, 230, 233, 237, 240,
      241, 244, 248, 251, 255, 258, 262, 265, 266, 271, 274, 282, 285, 296, 299, 307, 310,
      313, 321, 324, 332, 335, 338, 346, 349, 352, 357, 360, 363, 371, 374]"

definition rads_one_below :: "int list" where
  "rads_one_below =
     [3, 6, 7, 12, 13, 14, 21, 24, 25, 26, 27, 28, 29, 33, 42, 45, 47, 48, 50, 51, 52, 53, 54,
      55, 56, 57, 58, 59, 63, 66, 69, 79, 83, 84, 85, 89, 90, 94, 95, 96, 99, 100, 101, 102,
      104, 105, 106, 108, 110, 111, 112, 114, 115, 116, 117, 118, 123, 126, 129, 131, 132,
      135, 137, 138, 141, 143, 149, 155, 158, 161, 166, 167, 168, 169, 170, 173, 177, 178,
      180, 181, 187, 188, 189, 190, 192, 193, 198, 199, 200, 201, 202, 204, 205, 208, 209,
      210, 212, 213, 216, 220, 221, 222, 224, 225, 228, 230, 232, 233, 234, 236, 237, 241,
      246, 247, 251, 252, 253, 258, 262, 263, 264, 270, 273, 274, 275, 276, 282, 285, 286,
      287, 297, 298, 299, 305, 309, 310, 311, 315, 316, 317, 321, 322, 327, 332, 333, 334,
      336, 338, 340, 343, 345, 346, 349, 351, 354, 356, 357, 360, 362, 365, 367, 369, 373,
      374, 375]"

text \<open>The comparison of a converter with its specification at one unit, as a test.\<close>

fun differ_by :: "error + pyfloat \<Rightarrow> error + pyfloat \<Rightarrow> int \<Rightarrow> bool" where
  "differ_by (Inr d) (Inr t) k =
     (is_finite d \<and> is_finite t \<and> float_ordinal t = float_ordinal d + k \<and> (k = 0) = (d = t))"
| "differ_by _ _ k = False"

definition degs_gap :: "int \<Rightarrow> int" where
  "degs_gap unit = (if unit \<in> set degs_one_below then 1 else 0)"

definition rads_gap :: "int \<Rightarrow> int" where
  "rads_gap unit =
     (if unit \<in> set [219, 231, 363] then 2
      else if unit = 341 then - 1
      else if unit \<in> set rads_one_below then 1
      else 0)"

section \<open>What the program asks of the library\<close>

text \<open>The trig routines return a float, and do not raise, at every finite argument.\<close>

definition lib_total :: "'a pylib_scheme \<Rightarrow> bool" where
  "lib_total L \<longleftrightarrow>
     (\<forall>x. is_finite x \<longrightarrow>
        (\<exists>y. math_sin L x = Inr y) \<and> (\<exists>y. math_cos L x = Inr y) \<and> (\<exists>y. math_tan L x = Inr y))"

text \<open>The routine \<open>f\<close> returns, and does not raise, at the radians of every unit.\<close>

definition returns_at_units :: "(pyfloat \<Rightarrow> error + pyfloat) \<Rightarrow> bool" where
  "returns_at_units f \<longleftrightarrow>
     (\<forall>hw rads. 0 \<le> hw \<longrightarrow> hw \<le> 375 \<longrightarrow> hwians_to_rads hw = Inr rads
        \<longrightarrow> (\<exists>y. f rads = Inr y))"

text \<open>
  The routine \<open>f\<close>, which computes the real function \<open>g\<close>, stays in range: at every
  finite argument where the value of \<open>g\<close> is below \<open>2^1023\<close> in magnitude it returns a
  finite float. Nothing is asked of its accuracy.
\<close>

definition range_safe :: "(pyfloat \<Rightarrow> error + pyfloat) \<Rightarrow> (real \<Rightarrow> real) \<Rightarrow> bool" where
  "range_safe f g \<longleftrightarrow>
     (\<forall>x. is_finite x \<longrightarrow> \<bar>g (float_val x)\<bar> < 2 ^ 1023
        \<longrightarrow> (\<exists>y. f x = Inr y \<and> is_finite y))"

definition lib_range_safe :: "'a pylib_scheme \<Rightarrow> bool" where
  "lib_range_safe L \<longleftrightarrow>
     range_safe (math_sin L) sin \<and> range_safe (math_cos L) cos \<and> range_safe (math_tan L) tan"

text \<open>
  The tangent routine is roughly right at \<open>x\<close>: a finite float it returns there is
  within half of the tangent of \<open>x\<close>, that is between half and one and a half times it.
\<close>

definition tan_accurate_at :: "'a pylib_scheme \<Rightarrow> pyfloat \<Rightarrow> bool" where
  "tan_accurate_at L x \<longleftrightarrow>
     (\<forall>y. math_tan L x = Inr y \<longrightarrow> is_finite y
        \<longrightarrow> \<bar>float_val y - tan (float_val x)\<bar> \<le> \<bar>tan (float_val x)\<bar> / 2)"

text \<open>The text of a float holds no newline.\<close>

definition str_one_line :: "'a pylib_scheme \<Rightarrow> bool" where
  "str_one_line L \<longleftrightarrow> (\<forall>x. newline \<notin> set (float_str L x))"

text \<open>Lines written out one after the other, each ended by a newline.\<close>

definition unlines :: "string list \<Rightarrow> string" where
  "unlines ls = concat (map (\<lambda>l. l @ [newline]) ls)"

section \<open>Evaluating the converters\<close>

text \<open>Equations that make the rounding cheap to evaluate on numerals.\<close>

declare bitlen.simps [simp del] pow2.simps [simp del] nat_str.simps [simp del]
  py_range.simps [simp del]

lemma bitlen_nonpos: "n \<le> 0 \<Longrightarrow> bitlen n = 0"
  by (subst bitlen.simps) simp

lemma bitlen_pos: "0 < n \<Longrightarrow> bitlen n = 1 + bitlen (n div 2)"
  by (subst bitlen.simps) simp

lemma bitlen_numeral: "bitlen (numeral n) = num_bits n"
proof (induction n)
  case One
  show ?case by (simp add: bitlen_pos bitlen_nonpos)
next
  case (Bit0 n)
  have "bitlen (numeral (num.Bit0 n)) = 1 + bitlen (numeral n)"
    by (subst bitlen_pos) simp_all
  with Bit0 show ?case by simp
next
  case (Bit1 n)
  have "bitlen (numeral (num.Bit1 n)) = 1 + bitlen (numeral n)"
    by (subst bitlen_pos) simp_all
  with Bit1 show ?case by simp
qed

lemma bitlen_code [code]:
  "bitlen 0 = 0"
  "bitlen (Int.Pos n) = num_bits n"
  "bitlen (Int.Neg n) = 0"
  by (simp_all add: bitlen_numeral bitlen_nonpos Int.Pos_def Int.Neg_def)

lemma round_half_even_code [code]:
  "round_half_even n d =
     (let q = n div d; r = n - q * d
      in if 2 * r < d then q
         else if d < 2 * r then q + 1
         else if even q then q else q + 1)"
  by (simp only: round_half_even_def Let_def minus_div_mult_eq_mod)

text \<open>The constant factors of the converters, computed once.\<close>

lemma degs_factor: "int_truediv 180 750 = Inr (Finite False 8646911284551352 (- 55))"
  by code_simp

lemma rads_factor:
  "bind (int_to_float 750) (float_truediv math_pi) = Inr (Finite False 4829346305384748 (- 60))"
  by code_simp

lemma hwians_to_degs_code [code]:
  "hwians_to_degs hw =
     bind (int_to_float hw) (\<lambda>h. Inr (float_mul (Finite False 8646911284551352 (- 55)) h))"
  by (simp add: hwians_to_degs_def degs_factor bind_def)

lemma hwians_to_rads_code [code]:
  "hwians_to_rads hw =
     bind (int_to_float hw) (\<lambda>h. Inr (float_mul (Finite False 4829346305384748 (- 60)) h))"
proof -
  have "hwians_to_rads hw =
      bind (bind (int_to_float 750) (float_truediv math_pi))
        (\<lambda>c. bind (int_to_float hw) (\<lambda>h. Inr (float_mul c h)))"
    by (simp add: hwians_to_rads_def bind_def split: sum.splits)
  then show ?thesis
    by (simp add: rads_factor) (simp add: bind_def)
qed

section \<open>The order of floats\<close>

lemma pow2_eq: "pow2 e = 2 ^ nat e"
proof (induction e rule: pow2.induct)
  case (1 e)
  show ?case
  proof (cases "e \<le> 0")
    case True
    then show ?thesis by (subst pow2.simps) simp
  next
    case False
    then have "pow2 e = 2 * 2 ^ nat (e - 1)"
      using 1 by (subst pow2.simps) simp
    also have "\<dots> = 2 ^ Suc (nat (e - 1))" by simp
    also have "Suc (nat (e - 1)) = nat e" using False by simp
    finally show ?thesis .
  qed
qed

lemma scaled_le:
  fixes a b :: int
  shows "a * pow2 (e - f) \<le> b * pow2 (f - e) \<longleftrightarrow>
         real_of_int a * 2 powi e \<le> real_of_int b * 2 powi f"
proof (cases "f \<le> e")
  case True
  have p: "(2::real) powi e = 2 powi (e - f) * 2 powi f"
    by (simp flip: power_int_add)
  have "a * pow2 (e - f) \<le> b * pow2 (f - e) \<longleftrightarrow> a * 2 ^ nat (e - f) \<le> b"
    using True by (simp add: pow2_eq)
  also have "\<dots> \<longleftrightarrow> real_of_int (a * 2 ^ nat (e - f)) \<le> real_of_int b"
    by linarith
  also have "real_of_int (a * 2 ^ nat (e - f)) = real_of_int a * 2 powi (e - f)"
    using True by (simp add: power_int_def)
  also have "real_of_int a * 2 powi (e - f) \<le> real_of_int b \<longleftrightarrow>
      real_of_int a * 2 powi (e - f) * 2 powi f \<le> real_of_int b * 2 powi f"
    by (simp add: mult_le_cancel_right_pos)
  finally show ?thesis by (simp add: p mult.assoc)
next
  case False
  have p: "(2::real) powi f = 2 powi (f - e) * 2 powi e"
    by (simp flip: power_int_add)
  have "a * pow2 (e - f) \<le> b * pow2 (f - e) \<longleftrightarrow> a \<le> b * 2 ^ nat (f - e)"
    using False by (simp add: pow2_eq)
  also have "\<dots> \<longleftrightarrow> real_of_int a \<le> real_of_int (b * 2 ^ nat (f - e))"
    by linarith
  also have "real_of_int (b * 2 ^ nat (f - e)) = real_of_int b * 2 powi (f - e)"
    using False by (simp add: power_int_def)
  also have "real_of_int a \<le> real_of_int b * 2 powi (f - e) \<longleftrightarrow>
      real_of_int a * 2 powi e \<le> real_of_int b * 2 powi (f - e) * 2 powi e"
    by (simp add: mult_le_cancel_right_pos)
  finally show ?thesis by (simp add: p mult.assoc)
qed

lemma float_le_finite:
  assumes "is_finite x" and "is_finite y"
  shows "float_le x y \<longleftrightarrow> float_val x \<le> float_val y"
proof -
  from assms obtain s m e t n f where xy: "x = Finite s m e" "y = Finite t n f"
    by (cases x; cases y) auto
  show ?thesis
    using scaled_le [of "if s then - m else m" e f "if t then - n else n"]
    by (simp add: xy float_val_def)
qed

text \<open>
  From neighbours in order to any two in order: a converter whose results on \<open>0..375\<close>
  ascend from each unit to the next is monotone there.
\<close>

lemma ascending_resultsD:
  assumes "ascending_results x y"
  obtains a b where "x = Inr a" "y = Inr b" "is_finite a" "is_finite b" "float_le a b"
  using assms by (cases x; cases y) auto

lemma ascending_units_monotone:
  fixes f :: "int \<Rightarrow> error + pyfloat"
  assumes asc: "successively ascending_results (map f [0..375])"
    and u: "0 \<le> u1" "u1 \<le> u2" "u2 \<le> 375"
  shows "\<exists>a b. f u1 = Inr a \<and> f u2 = Inr b \<and> is_finite a \<and> is_finite b \<and> float_le a b"
proof -
  define Q where "Q u v \<longleftrightarrow>
      (\<exists>a b. f u = Inr a \<and> f v = Inr b \<and> is_finite a \<and> is_finite b
         \<and> float_val a \<le> float_val b)" for u v
  have "successively (\<lambda>u v. ascending_results (f u) (f v)) [0..375]"
    using asc by (simp add: successively_map)
  then have "successively Q [0..375]"
  proof (rule successively_mono)
    fix u v
    assume "ascending_results (f u) (f v)"
    then show "Q u v"
      unfolding Q_def by (elim ascending_resultsD) (auto simp: float_le_finite)
  qed
  moreover have "transp Q"
    unfolding Q_def by (rule transpI) force
  ultimately have sorted: "sorted_wrt Q [0..375]"
    by (simp add: successively_conv_sorted_wrt)
  have pair: "Q v w" if "0 \<le> v" "v < w" "w \<le> 375" for v w
  proof -
    have "nat v < nat w" and "nat w < length [0..375]"
      using that by auto
    then have "Q ([0..375] ! nat v) ([0..375] ! nat w)"
      by (rule sorted_wrt_nth_less [OF sorted])
    then show ?thesis using that by simp
  qed
  have refl: "Q v v" if "0 \<le> v" "v \<le> 375" for v
  proof (cases "v < 375")
    case True
    then have "Q v 375" using that by (intro pair) auto
    then show ?thesis unfolding Q_def by auto
  next
    case False
    then have "Q 0 v" using that by (intro pair) auto
    then show ?thesis unfolding Q_def by auto
  qed
  have "Q u1 u2"
  proof (cases "u1 = u2")
    case True
    then show ?thesis using refl u by simp
  next
    case False
    then show ?thesis using pair u by simp
  qed
  then show ?thesis
    unfolding Q_def by (auto simp: float_le_finite)
qed

lemma degs_ascending: "successively ascending_results (map hwians_to_degs [0..375])"
  by code_simp

lemma rads_ascending: "successively ascending_results (map hwians_to_rads [0..375])"
  by code_simp

lemma degs_finite:
  assumes "0 \<le> hw" and "hw \<le> 375"
  obtains d where "hwians_to_degs hw = Inr d" and "is_finite d"
  using ascending_units_monotone [OF degs_ascending assms(1) order_refl assms(2)] by auto

lemma rads_finite:
  assumes "0 \<le> hw" and "hw \<le> 375"
  obtains r where "hwians_to_rads hw = Inr r" and "is_finite r"
  using ascending_units_monotone [OF rads_ascending assms(1) order_refl assms(2)] by auto

section \<open>The converters against their specification\<close>

text \<open>
  C5. The degree converter maps the ends of the domain exactly: \<open>hwians_to_degs 0\<close> is
  the float \<open>0.0\<close> (the positive zero) and \<open>hwians_to_degs 375\<close> is the float \<open>90.0\<close>,
  of mantissa \<open>90 * 2^46\<close> and exponent \<open>-46\<close>.
\<close>

theorem hwians_to_degs_endpoints:
  "hwians_to_degs 0 = Inr (Finite False 0 0)
   \<and> hwians_to_degs 375 = Inr (Finite False (90 * 2 ^ 46) (- 46))
   \<and> float_val (Finite False (90 * 2 ^ 46) (- 46)) = 90"
proof -
  have "hwians_to_degs 0 = Inr (Finite False 0 0)"
    by code_simp
  moreover have "hwians_to_degs 375 = Inr (Finite False (90 * 2 ^ 46) (- 46))"
    by code_simp
  moreover have "float_val (Finite False (90 * 2 ^ 46) (- 46)) = 90"
    by (simp add: float_val_def power_int_minus)
  ultimately show ?thesis by simp
qed

text \<open>
  C10. Both converters are monotone on the domain: for units \<open>0 \<le> u1 \<le> u2 \<le> 375\<close> the
  two degree values are floats in order, and so are the two radian values.
\<close>

theorem converters_monotone:
  assumes "0 \<le> u1" and "u1 \<le> u2" and "u2 \<le> 375"
  shows "(\<exists>d1 d2. hwians_to_degs u1 = Inr d1 \<and> hwians_to_degs u2 = Inr d2 \<and> float_le d1 d2)
       \<and> (\<exists>r1 r2. hwians_to_rads u1 = Inr r1 \<and> hwians_to_rads u2 = Inr r2 \<and> float_le r1 r2)"
  using ascending_units_monotone [OF degs_ascending assms]
    ascending_units_monotone [OF rads_ascending assms]
  by blast

theorem converters_monotone_witness:
  "(0::int) \<le> 11 \<and> (11::int) \<le> 12 \<and> (12::int) \<le> 375
   \<and> (\<exists>d1 d2. hwians_to_degs 11 = Inr d1 \<and> hwians_to_degs 12 = Inr d2 \<and> float_le d1 d2)
   \<and> (\<exists>r1 r2. hwians_to_rads 11 = Inr r1 \<and> hwians_to_rads 12 = Inr r2 \<and> float_le r1 r2)"
  using converters_monotone [of 11 12] by simp

text \<open>
  C1, as stated: \<open>hwians_to_degs unit\<close> equals \<open>unit * 180.0 / 750.0\<close> for every unit of the
  domain. It fails at unit 11, where the code returns \<open>2.6399999999999997\<close> and the
  specified expression \<open>2.64\<close>, the next float.
\<close>

theorem hwians_to_degs_differs_at_11:
  "hwians_to_degs 11 = Inr (Finite False 5944751508129054 (- 51))
   \<and> spec_unit_to_degrees 11 = Inr (Finite False 5944751508129055 (- 51))
   \<and> hwians_to_degs 11 \<noteq> spec_unit_to_degrees 11"
  by code_simp

lemma degs_compared_low:
  "list_all (\<lambda>u. differ_by (hwians_to_degs u) (spec_unit_to_degrees u) (degs_gap u)) [0..187]"
  by code_simp

lemma degs_compared_high:
  "list_all (\<lambda>u. differ_by (hwians_to_degs u) (spec_unit_to_degrees u) (degs_gap u)) [188..375]"
  by code_simp

lemma units_split: "[0..375] = [0..187] @ [188..375]"
  using upto_split1 [of 0 188 375] by simp

lemma differ_byD:
  assumes "differ_by x y k"
  obtains d t where "x = Inr d" "y = Inr t" "is_finite d" "is_finite t"
    "float_ordinal t = float_ordinal d + k" "(k = 0) = (d = t)"
  using assms by (cases x; cases y) auto

text \<open>
  C1, amended. For every unit of \<open>0..375\<close> the code's \<open>(180 / 750) * unit\<close> and the
  specified \<open>unit * 180.0 / 750.0\<close> are finite floats, and the code's is either the
  specified float or the float just below it: they are equal at 289 units and one
  unit in the last place apart at the 87 units of \<open>degs_one_below\<close>.
\<close>

theorem hwians_to_degs_within_one_ulp:
  "\<forall>unit\<in>{0..375}. \<exists>d t.
      hwians_to_degs unit = Inr d \<and> spec_unit_to_degrees unit = Inr t
      \<and> is_finite d \<and> is_finite t
      \<and> (if unit \<in> set degs_one_below then float_ordinal t = float_ordinal d + 1 else d = t)"
proof
  fix unit :: int
  assume "unit \<in> {0..375}"
  then have "unit \<in> set [0..375]" by simp
  moreover have
    "list_all (\<lambda>u. differ_by (hwians_to_degs u) (spec_unit_to_degrees u) (degs_gap u)) [0..375]"
    unfolding units_split list_all_append using degs_compared_low degs_compared_high ..
  ultimately have "differ_by (hwians_to_degs unit) (spec_unit_to_degrees unit) (degs_gap unit)"
    by (simp only: list_all_iff)
  then show "\<exists>d t.
      hwians_to_degs unit = Inr d \<and> spec_unit_to_degrees unit = Inr t
      \<and> is_finite d \<and> is_finite t
      \<and> (if unit \<in> set degs_one_below then float_ordinal t = float_ordinal d + 1 else d = t)"
    by (elim differ_byD) (auto simp: degs_gap_def split: if_splits)
qed

theorem hwians_to_degs_within_one_ulp_witness:
  "(15::int) \<in> {0..375} \<and> 15 \<in> set degs_one_below \<and> (16::int) \<in> {0..375}
   \<and> 16 \<notin> set degs_one_below
   \<and> (\<exists>d t. hwians_to_degs 15 = Inr d \<and> spec_unit_to_degrees 15 = Inr t
         \<and> float_ordinal t = float_ordinal d + 1)
   \<and> hwians_to_degs 16 = spec_unit_to_degrees 16"
proof -
  have in15: "(15::int) \<in> {0..375}" and in16: "(16::int) \<in> {0..375}"
    by simp_all
  have m15: "15 \<in> set degs_one_below" and m16: "16 \<notin> set degs_one_below"
    by (simp_all add: degs_one_below_def)
  from bspec [OF hwians_to_degs_within_one_ulp in15] bspec [OF hwians_to_degs_within_one_ulp in16]
  show ?thesis
    using in15 in16 m15 m16 by auto
qed

text \<open>
  C2, as stated: \<open>hwians_to_rads unit\<close> equals \<open>unit * math.pi / 750.0\<close> for every unit of
  the domain. It fails at unit 3, where the code returns \<open>0.012566370614359171\<close> and the
  specified expression \<open>0.012566370614359173\<close>, the next float.
\<close>

theorem hwians_to_rads_differs_at_3:
  "hwians_to_rads 3 = Inr (Finite False 7244019458077122 (- 59))
   \<and> spec_unit_to_radians 3 = Inr (Finite False 7244019458077123 (- 59))
   \<and> hwians_to_rads 3 \<noteq> spec_unit_to_radians 3"
  by code_simp

lemma rads_compared_low:
  "list_all (\<lambda>u. differ_by (hwians_to_rads u) (spec_unit_to_radians u) (rads_gap u)) [0..187]"
  by code_simp

lemma rads_compared_high:
  "list_all (\<lambda>u. differ_by (hwians_to_rads u) (spec_unit_to_radians u) (rads_gap u)) [188..375]"
  by code_simp

text \<open>
  C2, amended. For every unit of \<open>0..375\<close> the code's \<open>(math.pi / 750) * unit\<close> and the
  specified \<open>unit * math.pi / 750.0\<close> are finite floats at most two units in the last
  place apart: equal at 207 units, the code's two floats below at 219, 231 and 363, one
  float above at 341, and one float below at the 165 units of \<open>rads_one_below\<close>.
\<close>

theorem hwians_to_rads_within_two_ulps:
  "\<forall>unit\<in>{0..375}. \<exists>r t.
      hwians_to_rads unit = Inr r \<and> spec_unit_to_radians unit = Inr t
      \<and> is_finite r \<and> is_finite t
      \<and> (if unit \<in> set [219, 231, 363] then float_ordinal t = float_ordinal r + 2
         else if unit = 341 then float_ordinal r = float_ordinal t + 1
         else if unit \<in> set rads_one_below then float_ordinal t = float_ordinal r + 1
         else r = t)"
proof
  fix unit :: int
  assume "unit \<in> {0..375}"
  then have "unit \<in> set [0..375]" by simp
  moreover have
    "list_all (\<lambda>u. differ_by (hwians_to_rads u) (spec_unit_to_radians u) (rads_gap u)) [0..375]"
    unfolding units_split list_all_append using rads_compared_low rads_compared_high ..
  ultimately have "differ_by (hwians_to_rads unit) (spec_unit_to_radians unit) (rads_gap unit)"
    by (simp only: list_all_iff)
  then show "\<exists>r t.
      hwians_to_rads unit = Inr r \<and> spec_unit_to_radians unit = Inr t
      \<and> is_finite r \<and> is_finite t
      \<and> (if unit \<in> set [219, 231, 363] then float_ordinal t = float_ordinal r + 2
         else if unit = 341 then float_ordinal r = float_ordinal t + 1
         else if unit \<in> set rads_one_below then float_ordinal t = float_ordinal r + 1
         else r = t)"
  proof (elim differ_byD)
    fix d t
    assume "hwians_to_rads unit = Inr d" "spec_unit_to_radians unit = Inr t"
      "is_finite d" "is_finite t"
      "float_ordinal t = float_ordinal d + rads_gap unit" "(rads_gap unit = 0) = (d = t)"
    then show ?thesis
      unfolding rads_gap_def by (intro exI [of _ d] exI [of _ t]) (simp split: if_splits)
  qed
qed

theorem hwians_to_rads_within_two_ulps_witness:
  "(219::int) \<in> {0..375} \<and> (1::int) \<in> {0..375} \<and> 1 \<notin> set rads_one_below
   \<and> (\<exists>r t. hwians_to_rads 219 = Inr r \<and> spec_unit_to_radians 219 = Inr t
         \<and> float_ordinal t = float_ordinal r + 2)
   \<and> hwians_to_rads 1 = spec_unit_to_radians 1"
proof -
  have in219: "(219::int) \<in> {0..375}" and in1: "(1::int) \<in> {0..375}"
    by simp_all
  have m1: "1 \<notin> set rads_one_below"
    by (simp add: rads_one_below_def)
  from bspec [OF hwians_to_rads_within_two_ulps in219] bspec [OF hwians_to_rads_within_two_ulps in1]
  show ?thesis
    using in219 in1 m1 by auto
qed

section \<open>The output of the program\<close>

lemma bind_simps [simp]: "bind (Inr x) f = f x" "bind (Inl e) f = Inl e"
  by (simp_all add: bind_def)

lemma py_range_step1: "py_range start stop 1 = [start..stop - 1]"
proof (induction start stop "1::int" rule: py_range.induct)
  case (1 start stop)
  show ?case
  proof (cases "stop \<le> start")
    case True
    then show ?thesis by (subst py_range.simps) simp
  next
    case False
    then have "py_range start stop 1 = start # [start + 1..stop - 1]"
      using 1 by (subst py_range.simps) simp
    also have "\<dots> = [start..stop - 1]"
      using False by (simp add: upto_rec1)
    finally show ?thesis .
  qed
qed

lemma py_range_units: "py_range 0 376 1 = [0..375]"
  by (simp add: py_range_step1)

subsection \<open>Text without newlines\<close>

lemma digit_char_in: "d < 10 \<Longrightarrow> digit_char d \<in> set ''0123456789''"
proof -
  assume "d < 10"
  then have "nat d < length ''0123456789''" by simp
  then show ?thesis unfolding digit_char_def by (rule nth_mem)
qed

lemma nat_str_digits: "set (nat_str n) \<subseteq> set ''0123456789''"
proof (induction n rule: nat_str.induct)
  case (1 n)
  show ?case
  proof (cases "n < 10")
    case True
    then show ?thesis
      using digit_char_in [of n] by (subst nat_str.simps) simp
  next
    case False
    have "n mod 10 < 10" by simp
    then have "digit_char (n mod 10) \<in> set ''0123456789''"
      by (rule digit_char_in)
    then show ?thesis
      using False 1 by (subst nat_str.simps) simp
  qed
qed

lemma int_str_no_newline: "newline \<notin> set (int_str n)"
  using nat_str_digits [of n] nat_str_digits [of "- n"]
  by (auto simp: int_str_def newline_def)

lemma format_int_no_newline: "newline \<notin> set (format_int w n)"
  using int_str_no_newline [of n] by (auto simp: format_int_def newline_def)

lemma format_row_no_newline:
  "str_one_line L \<Longrightarrow> newline \<notin> set (format_row L r hw rads degs)"
  using format_int_no_newline [of 3 hw]
  by (auto simp: format_row_def str_one_line_def newline_def tab_def)

subsection \<open>Lines of a text\<close>

lemma lines_from_line:
  "newline \<notin> set l \<Longrightarrow> lines_from cur (l @ newline # rest) = (cur @ l) # lines_from [] rest"
  by (induction l arbitrary: cur) auto

lemma lines_of_unlines:
  "\<forall>l\<in>set ls. newline \<notin> set l \<Longrightarrow> lines_of (unlines ls) = ls"
proof (induction ls)
  case Nil
  show ?case by (simp add: lines_of_def unlines_def)
next
  case (Cons l ls)
  then have "lines_from [] (l @ newline # unlines ls) = l # lines_from [] (unlines ls)"
    using lines_from_line [of l "[]" "unlines ls"] by simp
  with Cons show ?case by (simp add: lines_of_def unlines_def)
qed

lemma unlines_append: "unlines (xs @ ys) = unlines xs @ unlines ys"
  by (simp add: unlines_def)

subsection \<open>The loops\<close>

lemma table_loop_ok:
  assumes "\<forall>hw\<in>set hws. \<exists>row. table_row L f hw = Inr row"
  shows "table_loop L f hws out = (out @ unlines (map (\<lambda>hw. projr (table_row L f hw)) hws), None)"
  using assms
proof (induction hws arbitrary: out)
  case Nil
  show ?case by (simp add: unlines_def)
next
  case (Cons hw hws)
  then obtain row where row: "table_row L f hw = Inr row" by auto
  with Cons show ?case by (simp add: print_def unlines_def)
qed

lemma table_row_units:
  assumes "returns_at_units f" and "0 \<le> hw" and "hw \<le> 375"
  obtains r rads degs where "hwians_to_rads hw = Inr rads" and "hwians_to_degs hw = Inr degs"
    and "f rads = Inr r" and "table_row L f hw = Inr (format_row L r hw rads degs)"
proof -
  from assms(2,3) obtain rads where rads: "hwians_to_rads hw = Inr rads" "is_finite rads"
    by (rule rads_finite)
  from assms(2,3) obtain degs where degs: "hwians_to_degs hw = Inr degs" "is_finite degs"
    by (rule degs_finite)
  from assms rads(1) obtain r where r: "f rads = Inr r"
    unfolding returns_at_units_def by blast
  have "table_row L f hw = Inr (format_row L r hw rads degs)"
    by (simp add: table_row_def rads degs r)
  with rads(1) degs(1) r show ?thesis by (rule that)
qed

lemma table_pass_ok:
  assumes "returns_at_units f"
  shows "table_pass L name f out =
     (out @ unlines ('';'' # ('';'' @ name) # map (\<lambda>hw. projr (table_row L f hw)) [0..375]), None)"
proof -
  have "\<forall>hw\<in>set [0..375]. \<exists>row. table_row L f hw = Inr row"
  proof
    fix hw :: int
    assume "hw \<in> set [0..375]"
    then have "0 \<le> hw" "hw \<le> 375" by simp_all
    with assms show "\<exists>row. table_row L f hw = Inr row"
      by (rule table_row_units) blast
  qed
  then show ?thesis
    by (simp add: table_pass_def py_range_units table_loop_ok print_def unlines_def)
qed

lemma lib_total_returns:
  assumes "lib_total L"
  shows "returns_at_units (math_sin L)" and "returns_at_units (math_cos L)"
    and "returns_at_units (math_tan L)"
proof -
  have fin: "is_finite rads" if "0 \<le> hw" "hw \<le> 375" "hwians_to_rads hw = Inr rads" for hw rads
    using rads_finite [OF that(1,2)] that(3) by auto
  show "returns_at_units (math_sin L)" and "returns_at_units (math_cos L)"
    and "returns_at_units (math_tan L)"
    using assms fin unfolding returns_at_units_def lib_total_def by blast+
qed

text \<open>With routines that do not raise, the program writes three whole passes.\<close>

lemma main_ok:
  assumes "returns_at_units (math_sin L)" and "returns_at_units (math_cos L)"
    and "returns_at_units (math_tan L)"
  shows "main L =
     (unlines ('';'' # '';sin'' # map (\<lambda>hw. projr (table_row L (math_sin L) hw)) [0..375]
        @ '';'' # '';cos'' # map (\<lambda>hw. projr (table_row L (math_cos L) hw)) [0..375]
        @ '';'' # '';tan'' # map (\<lambda>hw. projr (table_row L (math_tan L) hw)) [0..375]), None)"
  unfolding main_def table_pass_ok [OF assms(1)] table_pass_ok [OF assms(2)]
    table_pass_ok [OF assms(3)]
  by (simp add: unlines_append) (simp add: unlines_def)

lemma main_lines:
  assumes s: "returns_at_units (math_sin L)" and c: "returns_at_units (math_cos L)"
    and t: "returns_at_units (math_tan L)" and one: "str_one_line L"
  shows "lines_of (fst (main L)) =
     '';'' # '';sin'' # map (\<lambda>hw. projr (table_row L (math_sin L) hw)) [0..375]
       @ '';'' # '';cos'' # map (\<lambda>hw. projr (table_row L (math_cos L) hw)) [0..375]
       @ '';'' # '';tan'' # map (\<lambda>hw. projr (table_row L (math_tan L) hw)) [0..375]"
proof -
  have row: "newline \<notin> set (projr (table_row L f hw))"
    if "returns_at_units f" "hw \<in> set [0..375]" for f hw
  proof -
    from that(2) have "0 \<le> hw" "hw \<le> 375" by simp_all
    with that(1) obtain r rads degs
      where "table_row L f hw = Inr (format_row L r hw rads degs)"
      by (rule table_row_units)
    then show ?thesis
      using format_row_no_newline [OF one] by simp
  qed
  have "\<forall>hw\<in>set [0..375]. newline \<notin> set (projr (table_row L (math_sin L) hw))"
    and "\<forall>hw\<in>set [0..375]. newline \<notin> set (projr (table_row L (math_cos L) hw))"
    and "\<forall>hw\<in>set [0..375]. newline \<notin> set (projr (table_row L (math_tan L) hw))"
    using row [OF s] row [OF c] row [OF t] by blast+
  then show ?thesis
    unfolding main_ok [OF s c t] fst_conv
    by (intro lines_of_unlines) (auto simp: newline_def)
qed

subsection \<open>The small library meets what is asked\<close>

lemma demo_lib_total: "lib_total demo_lib"
  by (simp add: lib_total_def demo_lib_def)

lemma demo_str_one_line: "str_one_line demo_lib"
proof -
  have "newline \<notin> set (demo_str x)" for x
    using int_str_no_newline by (cases x) (auto simp: newline_def)
  then show ?thesis by (simp add: str_one_line_def demo_lib_def)
qed

subsection \<open>The three passes\<close>

lemma units_nth: "0 \<le> hw \<Longrightarrow> hw \<le> 375 \<Longrightarrow> [0..375] ! nat hw = hw"
  by simp

subsection \<open>The first lines\<close>

lemma table_loop_prefix: "\<exists>rest. fst (table_loop L f hws out) = out @ rest"
proof (induction hws arbitrary: out)
  case Nil
  show ?case by simp
next
  case (Cons hw hws)
  show ?case
  proof (cases "table_row L f hw")
    case (Inl err)
    then show ?thesis by simp
  next
    case (Inr row)
    from Cons [of "print row out"] obtain rest
      where "fst (table_loop L f hws (print row out)) = print row out @ rest" ..
    with Inr show ?thesis by (simp add: print_def)
  qed
qed

lemma table_pass_prefix: "\<exists>rest. fst (table_pass L name f out) = out @ rest"
proof -
  obtain rest where
    "fst (table_pass L name f out) = print ('';'' @ [newline] @ '';'' @ name) out @ rest"
    unfolding table_pass_def using table_loop_prefix by blast
  then show ?thesis by (simp add: print_def)
qed

lemma main_prefix: "\<exists>rest. fst (main L) = fst (table_pass L ''sin'' (math_sin L) []) @ rest"
proof -
  obtain out1 e1 where p1: "table_pass L ''sin'' (math_sin L) [] = (out1, e1)"
    by (cases "table_pass L ''sin'' (math_sin L) []")
  obtain out2 e2 where p2: "table_pass L ''cos'' (math_cos L) out1 = (out2, e2)"
    by (cases "table_pass L ''cos'' (math_cos L) out1")
  obtain r2 where r2: "out2 = out1 @ r2"
    using table_pass_prefix [of L "''cos''" "math_cos L" out1] p2 by auto
  obtain r3 where r3: "fst (table_pass L ''tan'' (math_tan L) out2) = out2 @ r3"
    using table_pass_prefix by blast
  show ?thesis
  proof (cases e1)
    case (Some err)
    then show ?thesis by (simp add: main_def p1)
  next
    case None
    show ?thesis
    proof (cases e2)
      case (Some err)
      then show ?thesis using None by (simp add: main_def p1 p2 r2)
    next
      case e2: None
      then show ?thesis using None r3 by (simp add: main_def p1 p2 r2)
    qed
  qed
qed

lemma unit_zero_converted:
  "hwians_to_rads 0 = Inr (Finite False 0 0)" "hwians_to_degs 0 = Inr (Finite False 0 0)"
  by code_simp+

lemma format_int_zero: "format_int 3 0 = ''  0''"
  by code_simp

text \<open>
  C6. With a library whose sine of the float \<open>0.0\<close> is \<open>0.0\<close> and whose text of \<open>0.0\<close>
  is \<open>0.0\<close>, the first three lines of the output are \<open>;\<close>, \<open>;sin\<close> and the sine row of
  unit 0: the trig value \<open>0.0\<close> (the sine of the positive zero, not of \<open>-0.0\<close>), a tab,
  and \<open>; HW:  0 Rads:0.0 Degs:0.0\<close>.
\<close>

theorem first_three_lines:
  assumes "math_sin L (Finite False 0 0) = Inr (Finite False 0 0)"
    and "float_str L (Finite False 0 0) = ''0.0''"
  shows "take 3 (lines_of (fst (main L)))
     = ['';'', '';sin'', ''0.0'' @ [tab] @ ''; HW:  0 Rads:0.0 Degs:0.0'']"
proof -
  define row where "row = ''0.0'' @ [tab] @ ''; HW:  0 Rads:0.0 Degs:0.0''"
  have "table_row L (math_sin L) 0 = Inr row"
    by (simp add: table_row_def unit_zero_converted assms format_row_def format_int_zero row_def)
  moreover have "py_range 0 376 1 = 0 # [1..375]"
    by (simp add: py_range_units upto_rec1)
  ultimately have "table_pass L ''sin'' (math_sin L) []
      = table_loop L (math_sin L) [1..375] ('';'' @ [newline] @ '';sin'' @ [newline] @ row @ [newline])"
    by (simp add: table_pass_def print_def)
  then obtain rest where "fst (main L)
      = '';'' @ newline # '';sin'' @ newline # row @ newline # rest"
    using main_prefix [of L]
      table_loop_prefix [of L "math_sin L" "[1..375]"
        "'';'' @ [newline] @ '';sin'' @ [newline] @ row @ [newline]"]
    by auto
  moreover have step: "lines_from [] (l @ newline # R) = l # lines_from [] R"
    if "newline \<notin> set l" for l R
    using lines_from_line [OF that, of "[]" R] by (simp only: append_Nil)
  have n1: "newline \<notin> set '';''" and n2: "newline \<notin> set '';sin''"
    and n3: "newline \<notin> set row"
    by (simp_all add: newline_def tab_def row_def)
  have "lines_from [] ('';'' @ newline # '';sin'' @ newline # row @ newline # rest)
      = '';'' # '';sin'' # row # lines_from [] rest"
    by (simp only: step [OF n1] step [OF n2] step [OF n3])
  ultimately have "lines_of (fst (main L)) = '';'' # '';sin'' # row # lines_from [] rest"
    by (simp only: lines_of_def)
  then show ?thesis by (simp add: row_def)
qed

theorem first_three_lines_witness:
  "math_sin demo_lib (Finite False 0 0) = Inr (Finite False 0 0)
   \<and> float_str demo_lib (Finite False 0 0) = ''0.0''
   \<and> take 3 (lines_of (fst (main demo_lib)))
     = ['';'', '';sin'', ''0.0'' @ [tab] @ ''; HW:  0 Rads:0.0 Degs:0.0'']"
proof -
  have s: "math_sin demo_lib (Finite False 0 0) = Inr (Finite False 0 0)"
    and t: "float_str demo_lib (Finite False 0 0) = ''0.0''"
    by (simp_all add: demo_lib_def)
  from first_three_lines [OF s t] s t show ?thesis by simp
qed

subsection \<open>The shape of a row\<close>

lemma nat_str_short: "0 \<le> n \<Longrightarrow> n < 1000 \<Longrightarrow> length (nat_str n) \<le> 3"
proof -
  assume n: "0 \<le> n" "n < 1000"
  have one: "length (nat_str k) = 1" if "k < 10" for k
    using that by (subst nat_str.simps) simp
  show ?thesis
  proof (cases "n < 10")
    case True
    then show ?thesis by (simp add: one)
  next
    case False
    show ?thesis
    proof (cases "n < 100")
      case True
      then have "n div 10 < 10" by simp
      then show ?thesis
        using False by (subst nat_str.simps) (simp add: one)
    next
      case ge100: False
      have "n div 10 div 10 < 10" using n by simp
      moreover have "\<not> n div 10 < 10" using ge100 by simp
      ultimately have "length (nat_str (n div 10)) = 2"
        by (subst nat_str.simps) (simp add: one)
      then show ?thesis
        using False by (subst nat_str.simps) simp
    qed
  qed
qed

lemma format_int_field:
  assumes "0 \<le> hw" and "hw \<le> 375"
  obtains pad where "format_int 3 hw = pad @ int_str hw" and "set pad \<subseteq> {CHR '' ''}"
    and "length (pad @ int_str hw) = 3"
proof
  show "format_int 3 hw = replicate (3 - length (int_str hw)) CHR '' '' @ int_str hw"
    by (simp add: format_int_def)
  show "set (replicate (3 - length (int_str hw)) CHR '' '') \<subseteq> {CHR '' ''}"
    by auto
  have "length (int_str hw) \<le> 3"
    using assms nat_str_short [of hw] by (simp add: int_str_def)
  then show "length (replicate (3 - length (int_str hw)) CHR '' '' @ int_str hw) = 3"
    by simp
qed

lemma nth_block: "length A = a \<Longrightarrow> n < length B \<Longrightarrow> (A @ B @ R) ! (a + n) = B ! n"
  by (simp add: nth_append)

text \<open>
  Where a row is among the lines: with routines that return at every unit, the line of
  unit \<open>hw\<close> in pass \<open>p\<close> (0 for sine, 1 for cosine, 2 for tangent) is line
  \<open>378 * p + 2 + hw\<close> of the output, counted from 0.
\<close>

lemma data_line_at:
  assumes s: "returns_at_units (math_sin L)" and c: "returns_at_units (math_cos L)"
    and t: "returns_at_units (math_tan L)" and one: "str_one_line L"
    and p: "p < 3" and hw: "0 \<le> hw" "hw \<le> 375"
  shows "\<exists>r rads degs.
     hwians_to_rads hw = Inr rads \<and> hwians_to_degs hw = Inr degs
     \<and> ([math_sin L, math_cos L, math_tan L] ! p) rads = Inr r
     \<and> lines_of (fst (main L)) ! (378 * p + 2 + nat hw) = format_row L r hw rads degs"
proof -
  define f where "f = [math_sin L, math_cos L, math_tan L] ! p"
  define S where "S = map (\<lambda>hw. projr (table_row L (math_sin L) hw)) [0..375]"
  define C where "C = map (\<lambda>hw. projr (table_row L (math_cos L) hw)) [0..375]"
  define T where "T = map (\<lambda>hw. projr (table_row L (math_tan L) hw)) [0..375]"
  have len: "length S = 376" "length C = 376" "length T = 376"
    by (simp_all add: S_def C_def T_def)
  have n: "nat hw < 376" using hw by simp
  have lines: "lines_of (fst (main L))
      = ['';'', '';sin''] @ S @ ['';'', '';cos''] @ C @ ['';'', '';tan''] @ T"
    by (simp add: main_lines [OF s c t one] S_def C_def T_def)
  from p consider "p = 0" | "p = 1" | "p = 2" by linarith
  then have line: "lines_of (fst (main L)) ! (378 * p + 2 + nat hw)
      = map (\<lambda>hw. projr (table_row L f hw)) [0..375] ! nat hw"
  proof cases
    case 1
    have "(['';'', '';sin''] @ S @ ['';'', '';cos''] @ C @ ['';'', '';tan''] @ T) ! (2 + nat hw)
        = S ! nat hw"
      using n len by (intro nth_block) simp_all
    then show ?thesis by (simp add: 1 lines f_def S_def)
  next
    case 2
    have "((['';'', '';sin''] @ S @ ['';'', '';cos'']) @ C @ ['';'', '';tan''] @ T)
          ! (380 + nat hw) = C ! nat hw"
      using n len by (intro nth_block) simp_all
    then show ?thesis by (simp add: 2 lines f_def C_def)
  next
    case 3
    have "((['';'', '';sin''] @ S @ ['';'', '';cos''] @ C @ ['';'', '';tan'']) @ T @ [])
          ! (758 + nat hw) = T ! nat hw"
      using n len by (intro nth_block) simp_all
    then show ?thesis by (simp add: 3 lines f_def T_def)
  qed
  from p s c t have "returns_at_units f"
    unfolding f_def by (auto simp: less_Suc_eq numeral_3_eq_3)
  from this hw obtain r rads degs
    where rads: "hwians_to_rads hw = Inr rads" and degs: "hwians_to_degs hw = Inr degs"
      and r: "f rads = Inr r" and row: "table_row L f hw = Inr (format_row L r hw rads degs)"
    by (rule table_row_units)
  have "[0..375] ! nat hw = hw"
    using hw by (rule units_nth)
  then have "map (\<lambda>hw. projr (table_row L f hw)) [0..375] ! nat hw
      = format_row L r hw rads degs"
    using row n by (simp del: nth_upto)
  then have "lines_of (fst (main L)) ! (378 * p + 2 + nat hw) = format_row L r hw rads degs"
    by (simp only: line)
  with rads degs r show ?thesis
    unfolding f_def by blast
qed



subsection \<open>The three passes, row by row\<close>

text \<open>
  C3. With a library whose trig routines return at finite arguments and whose float
  text is one line, the output is, in this order: the header lines \<open>;\<close> and \<open>;sin\<close>
  and 376 sine rows, \<open>;\<close> and \<open>;cos\<close> and 376 cosine rows, \<open>;\<close> and \<open>;tan\<close> and 376
  tangent rows, 1128 rows in all, and the program ends without an exception. The row
  at position \<open>hw\<close> of a pass is the row of unit \<open>hw\<close>: the text of that pass's trig
  value of the unit's radians, a tab, \<open>; HW:\<close>, the decimal unit padded to three
  characters, \<open> Rads:\<close>, the text of the radians, \<open> Degs:\<close>, the text of the degrees.
\<close>

theorem three_passes:
  assumes "lib_total L" and "str_one_line L"
  shows "\<exists>S C T.
     lines_of (fst (main L))
       = ['';'', '';sin''] @ S @ ['';'', '';cos''] @ C @ ['';'', '';tan''] @ T
     \<and> length S = 376 \<and> length C = 376 \<and> length T = 376
     \<and> length S + length C + length T = 1128
     \<and> (\<forall>hw\<in>{0..375}. \<exists>rads degs s c t pad.
          hwians_to_rads hw = Inr rads \<and> hwians_to_degs hw = Inr degs
          \<and> math_sin L rads = Inr s \<and> math_cos L rads = Inr c \<and> math_tan L rads = Inr t
          \<and> set pad \<subseteq> {CHR '' ''} \<and> length (pad @ int_str hw) = 3
          \<and> S ! nat hw = float_str L s @ [tab] @ ''; HW:'' @ pad @ int_str hw
                @ '' Rads:'' @ float_str L rads @ '' Degs:'' @ float_str L degs
          \<and> C ! nat hw = float_str L c @ [tab] @ ''; HW:'' @ pad @ int_str hw
                @ '' Rads:'' @ float_str L rads @ '' Degs:'' @ float_str L degs
          \<and> T ! nat hw = float_str L t @ [tab] @ ''; HW:'' @ pad @ int_str hw
                @ '' Rads:'' @ float_str L rads @ '' Degs:'' @ float_str L degs)
     \<and> snd (main L) = None"
proof -
  define S where "S = map (\<lambda>hw. projr (table_row L (math_sin L) hw)) [0..375]"
  define C where "C = map (\<lambda>hw. projr (table_row L (math_cos L) hw)) [0..375]"
  define T where "T = map (\<lambda>hw. projr (table_row L (math_tan L) hw)) [0..375]"
  from assms(1) have s: "returns_at_units (math_sin L)"
    and c: "returns_at_units (math_cos L)" and t: "returns_at_units (math_tan L)"
    by (rule lib_total_returns)+
  have lines: "lines_of (fst (main L))
      = ['';'', '';sin''] @ S @ ['';'', '';cos''] @ C @ ['';'', '';tan''] @ T"
    by (simp add: main_lines [OF s c t assms(2)] S_def C_def T_def)
  have len: "length S = 376" "length C = 376" "length T = 376"
    by (simp_all add: S_def C_def T_def)
  have rows: "\<exists>rads degs s c t pad.
          hwians_to_rads hw = Inr rads \<and> hwians_to_degs hw = Inr degs
          \<and> math_sin L rads = Inr s \<and> math_cos L rads = Inr c \<and> math_tan L rads = Inr t
          \<and> set pad \<subseteq> {CHR '' ''} \<and> length (pad @ int_str hw) = 3
          \<and> S ! nat hw = float_str L s @ [tab] @ ''; HW:'' @ pad @ int_str hw
                @ '' Rads:'' @ float_str L rads @ '' Degs:'' @ float_str L degs
          \<and> C ! nat hw = float_str L c @ [tab] @ ''; HW:'' @ pad @ int_str hw
                @ '' Rads:'' @ float_str L rads @ '' Degs:'' @ float_str L degs
          \<and> T ! nat hw = float_str L t @ [tab] @ ''; HW:'' @ pad @ int_str hw
                @ '' Rads:'' @ float_str L rads @ '' Degs:'' @ float_str L degs"
    if "hw \<in> {0..375}" for hw
  proof -
    from that have hw: "0 \<le> hw" "hw \<le> 375" by simp_all
    from hw obtain rads where rads: "hwians_to_rads hw = Inr rads" "is_finite rads"
      by (rule rads_finite)
    from hw obtain degs where degs: "hwians_to_degs hw = Inr degs" "is_finite degs"
      by (rule degs_finite)
    from assms(1) rads(2) obtain vs vc vt
      where v: "math_sin L rads = Inr vs" "math_cos L rads = Inr vc" "math_tan L rads = Inr vt"
      unfolding lib_total_def by blast
    from hw obtain pad where pad: "format_int 3 hw = pad @ int_str hw"
      "set pad \<subseteq> {CHR '' ''}" "length (pad @ int_str hw) = 3"
      by (rule format_int_field)
    have row: "projr (table_row L f hw)
        = float_str L r @ [tab] @ ''; HW:'' @ pad @ int_str hw
            @ '' Rads:'' @ float_str L rads @ '' Degs:'' @ float_str L degs"
      if "f rads = Inr r" for f r
      by (simp add: table_row_def rads(1) degs(1) that format_row_def pad(1))
    have idx: "[0..375] ! nat hw = hw"
      using hw by (rule units_nth)
    have n: "nat hw < length [0..375]"
      using hw by simp
    have nth: "map (\<lambda>u. projr (table_row L f u)) [0..375] ! nat hw = projr (table_row L f hw)"
      for f
      using nth_map [OF n, of "\<lambda>u. projr (table_row L f u)"] by (simp only: idx)
    have "S ! nat hw = float_str L vs @ [tab] @ ''; HW:'' @ pad @ int_str hw
            @ '' Rads:'' @ float_str L rads @ '' Degs:'' @ float_str L degs"
      and "C ! nat hw = float_str L vc @ [tab] @ ''; HW:'' @ pad @ int_str hw
            @ '' Rads:'' @ float_str L rads @ '' Degs:'' @ float_str L degs"
      and "T ! nat hw = float_str L vt @ [tab] @ ''; HW:'' @ pad @ int_str hw
            @ '' Rads:'' @ float_str L rads @ '' Degs:'' @ float_str L degs"
      unfolding S_def C_def T_def nth
      by (rule row, rule v)+
    with rads(1) degs(1) v pad(2,3) show ?thesis by blast
  qed
  have "snd (main L) = None"
    by (simp add: main_ok [OF s c t])
  with lines len rows show ?thesis
    by (intro exI [of _ S] exI [of _ C] exI [of _ T]) simp
qed

theorem three_passes_witness:
  "lib_total demo_lib \<and> str_one_line demo_lib
   \<and> length (lines_of (fst (main demo_lib))) = 1134 \<and> snd (main demo_lib) = None"
proof -
  from three_passes [OF demo_lib_total demo_str_one_line]
  have "length (lines_of (fst (main demo_lib))) = 1134 \<and> snd (main demo_lib) = None"
    by auto
  with demo_lib_total demo_str_one_line show ?thesis by simp
qed

section \<open>The tangent next to 90 degrees\<close>

text \<open>
  The radians of unit 375 are the float just below the float nearest to \<open>pi / 2\<close>. How
  large the tangent is there depends on how far that float is from \<open>pi / 2\<close> itself,
  so \<open>pi\<close> is needed to 17 digits: Machin's formula and the alternating series of the
  arctangent, whose partial sums enclose it.
\<close>

lemma arctan_partial_sums:
  fixes x :: real
  assumes "0 < x" and "x \<le> 1"
  shows "(\<Sum>i<2 * n. (- 1) ^ i * (1 / real (i * 2 + 1) * x ^ (i * 2 + 1))) \<le> arctan x"
    and "arctan x \<le> (\<Sum>i<2 * n + 1. (- 1) ^ i * (1 / real (i * 2 + 1) * x ^ (i * 2 + 1)))"
proof -
  have x: "\<bar>x\<bar> \<le> 1" using assms by simp
  have "0 < 1 / real (0 * 2 + 1) * x ^ (0 * 2 + 1)" using assms by simp
  with summable_Leibniz(2) [OF zeroseq_arctan_series [OF x] monoseq_arctan_series [OF x]]
  have "arctan x \<in> {(\<Sum>i<2 * n. (- 1) ^ i * (1 / real (i * 2 + 1) * x ^ (i * 2 + 1)))
      .. (\<Sum>i<2 * n + 1. (- 1) ^ i * (1 / real (i * 2 + 1) * x ^ (i * 2 + 1)))}"
    unfolding arctan_series [OF x] by blast
  then show "(\<Sum>i<2 * n. (- 1) ^ i * (1 / real (i * 2 + 1) * x ^ (i * 2 + 1))) \<le> arctan x"
    and "arctan x \<le> (\<Sum>i<2 * n + 1. (- 1) ^ i * (1 / real (i * 2 + 1) * x ^ (i * 2 + 1)))"
    by simp_all
qed

lemma sum5_lower:
  "(3158328957598092131849 / 10 ^ 21 :: real)
     \<le> 16 * (\<Sum>i<2 * 6. (- 1) ^ i * (1 / real (i * 2 + 1) * (1 / 5) ^ (i * 2 + 1)))"
  by (simp add: lessThan_nat_numeral lessThan_Suc power_divide)

lemma sum5_upper:
  "16 * (\<Sum>i<2 * 6 + 1. (- 1) ^ i * (1 / real (i * 2 + 1) * (1 / 5) ^ (i * 2 + 1)))
     \<le> (3158328957598092133998 / 10 ^ 21 :: real)"
  by (simp add: lessThan_nat_numeral lessThan_Suc power_divide)

lemma sum239_lower:
  "(16736304008298895457 / 10 ^ 21 :: real)
     \<le> 4 * (\<Sum>i<2 * 2. (- 1) ^ i * (1 / real (i * 2 + 1) * (1 / 239) ^ (i * 2 + 1)))"
  by (simp add: lessThan_nat_numeral lessThan_Suc power_divide)

lemma sum239_upper:
  "4 * (\<Sum>i<2 * 2 + 1. (- 1) ^ i * (1 / real (i * 2 + 1) * (1 / 239) ^ (i * 2 + 1)))
     \<le> (16736304008298895459 / 10 ^ 21 :: real)"
  by (simp add: lessThan_nat_numeral lessThan_Suc power_divide)

lemma pi_bounds: "31415926535897932 / 10 ^ 16 < pi" "pi < 31415926535897933 / 10 ^ 16"
proof -
  have p: "pi = 16 * arctan (1 / 5) - 4 * arctan (1 / 239)"
    using machin by simp
  have l5: "(\<Sum>i<2 * 6. (- 1) ^ i * (1 / real (i * 2 + 1) * (1 / 5 :: real) ^ (i * 2 + 1)))
      \<le> arctan (1 / 5)"
    and u5: "arctan (1 / 5)
      \<le> (\<Sum>i<2 * 6 + 1. (- 1) ^ i * (1 / real (i * 2 + 1) * (1 / 5 :: real) ^ (i * 2 + 1)))"
    and l239: "(\<Sum>i<2 * 2. (- 1) ^ i * (1 / real (i * 2 + 1) * (1 / 239 :: real) ^ (i * 2 + 1)))
      \<le> arctan (1 / 239)"
    and u239: "arctan (1 / 239)
      \<le> (\<Sum>i<2 * 2 + 1. (- 1) ^ i * (1 / real (i * 2 + 1) * (1 / 239 :: real) ^ (i * 2 + 1)))"
    by (rule arctan_partial_sums; simp)+
  show "31415926535897932 / 10 ^ 16 < pi"
    using l5 u239 sum5_lower sum239_upper unfolding p by simp
  show "pi < 31415926535897933 / 10 ^ 16"
    using u5 l239 sum5_upper sum239_lower unfolding p by simp
qed

text \<open>\<open>math.pi\<close> is the float nearest to \<open>pi\<close>: it is less than half a unit in the last place away.\<close>

lemma math_pi_nearest:
  "math_pi = Finite False 7074237752028440 (- 51)"
  "\<bar>pi - float_val math_pi\<bar> < 1 / 2 ^ 52"
proof -
  show m: "math_pi = Finite False 7074237752028440 (- 51)"
    by code_simp
  have "float_val math_pi = 7074237752028440 / 2 ^ 51"
    by (simp add: m float_val_def power_int_minus_divide)
  then show "\<bar>pi - float_val math_pi\<bar> < 1 / 2 ^ 52"
    using pi_bounds by simp
qed

text \<open>Close to 0 the tangent is its argument, up to one part in a thousand.\<close>

lemma tan_small:
  fixes d :: real
  assumes "0 < d" and "d \<le> 1 / 100"
  shows "d \<le> tan d" and "tan d \<le> 1001 / 1000 * d"
proof -
  have "- (pi / 2) < d" and "d < pi / 2"
    using assms pi_ge_two by linarith+
  then have at: "arctan (tan d) = d"
    by (rule arctan_tan)
  have "arctan d \<le> (\<Sum>i<2 * 0 + 1. (- 1) ^ i * (1 / real (i * 2 + 1) * d ^ (i * 2 + 1)))"
    using assms by (intro arctan_partial_sums) simp_all
  then have "arctan d \<le> arctan (tan d)"
    by (simp add: at)
  then show "d \<le> tan d"
    by (simp only: arctan_le_iff)
  define c where "c = 1001 / 1000 * d"
  have c: "0 < c" "c \<le> 1"
    using assms by (simp_all add: c_def)
  have "d * d \<le> 1 / 100 * (1 / 100)"
    using assms by (intro mult_mono) simp_all
  then have "c ^ 3 / 3 \<le> d / 1000"
    using assms by (simp add: c_def power3_eq_cube)
  then have "d \<le> c - c ^ 3 / 3"
    by (simp add: c_def)
  also have "\<dots> = (\<Sum>i<2 * 1. (- 1) ^ i * (1 / real (i * 2 + 1) * c ^ (i * 2 + 1)))"
    by (simp add: lessThan_nat_numeral lessThan_Suc power3_eq_cube power2_eq_square)
  also have "\<dots> \<le> arctan c"
    using c by (intro arctan_partial_sums) simp_all
  finally have "arctan (tan d) \<le> arctan c"
    by (simp add: at)
  then show "tan d \<le> 1001 / 1000 * d"
    by (simp only: arctan_le_iff c_def)
qed

text \<open>The tangent of the radians of unit 375 is about \<open>3.5 * 10^15\<close>.\<close>

lemma tan_near_half_pi:
  fixes x :: real
  assumes x: "x = 7074237752028439 / 2 ^ 52"
  shows "x < pi / 2" and "31 * 10 ^ 14 \<le> tan x" and "tan x \<le> 4 * 10 ^ 15"
proof -
  define d where "d = pi / 2 - x"
  have lo: "1 / (4 * 10 ^ 15) \<le> d" and hi: "1001 / 1000 * d \<le> 1 / (31 * 10 ^ 14)"
    using pi_bounds by (simp_all add: d_def x)
  have d: "0 < d" "d \<le> 1 / 100"
    using lo hi by simp_all
  show "x < pi / 2"
    using d(1) by (simp add: d_def)
  have t: "tan x = inverse (tan d)"
    using tan_cot [of d] by (simp add: d_def)
  have td: "d \<le> tan d" "tan d \<le> 1001 / 1000 * d"
    using d by (rule tan_small)+
  have pos: "0 < tan d" using td(1) d(1) by linarith
  have "tan d \<le> 1 / (31 * 10 ^ 14)"
    using td(2) hi by linarith
  then have "inverse (1 / (31 * 10 ^ 14)) \<le> inverse (tan d)"
    using pos by (intro le_imp_inverse_le)
  then show "31 * 10 ^ 14 \<le> tan x"
    by (simp add: t)
  have "1 / (4 * 10 ^ 15) \<le> tan d"
    using td(1) lo by linarith
  then have "inverse (tan d) \<le> inverse (1 / (4 * 10 ^ 15 :: real))"
    by (intro le_imp_inverse_le) simp_all
  then show "tan x \<le> 4 * 10 ^ 15"
    by (simp add: t)
qed

subsection \<open>The arguments of the trig routines\<close>

lemma unit_375_converted:
  "hwians_to_rads 375 = Inr (Finite False 7074237752028439 (- 52))"
  by code_simp

lemma float_val_zero: "float_val (Finite False 0 0) = 0"
  by (simp add: float_val_def)

lemma float_val_unit_375:
  "float_val (Finite False 7074237752028439 (- 52)) = 7074237752028439 / 2 ^ 52"
  by (simp add: float_val_def power_int_minus_divide)

text \<open>Every unit's radians are a finite float between 0 and the radians of unit 375.\<close>

lemma rads_in_quadrant:
  assumes "0 \<le> hw" and "hw \<le> 375" and "hwians_to_rads hw = Inr rads"
  shows "is_finite rads" and "0 \<le> float_val rads"
    and "float_val rads \<le> 7074237752028439 / 2 ^ 52"
proof -
  from ascending_units_monotone [OF rads_ascending order_refl assms(1,2)]
  have lo: "is_finite rads \<and> float_le (Finite False 0 0) rads"
    by (auto simp: unit_zero_converted assms(3))
  then show "is_finite rads" ..
  from lo have "float_val (Finite False 0 0) \<le> float_val rads"
    using float_le_finite [of "Finite False 0 0" rads] by simp
  then show "0 \<le> float_val rads"
    by (simp only: float_val_zero)
  from ascending_units_monotone [OF rads_ascending assms(1,2) order_refl]
  have "float_le rads (Finite False 7074237752028439 (- 52))"
    by (auto simp: unit_375_converted assms(3))
  with lo have "float_val rads \<le> float_val (Finite False 7074237752028439 (- 52))"
    using float_le_finite [of rads "Finite False 7074237752028439 (- 52)"] by simp
  then show "float_val rads \<le> 7074237752028439 / 2 ^ 52"
    by (simp only: float_val_unit_375)
qed

lemma rads_functions_in_range:
  assumes "0 \<le> hw" and "hw \<le> 375" and "hwians_to_rads hw = Inr rads"
  shows "\<bar>sin (float_val rads)\<bar> < 2 ^ 1023" and "\<bar>cos (float_val rads)\<bar> < 2 ^ 1023"
    and "\<bar>tan (float_val rads)\<bar> < 2 ^ 1023"
proof -
  have one: "(1::real) < 2 ^ 1023" by simp
  show "\<bar>sin (float_val rads)\<bar> < 2 ^ 1023"
    using abs_sin_le_one [of "float_val rads"] one by linarith
  show "\<bar>cos (float_val rads)\<bar> < 2 ^ 1023"
    using abs_cos_le_one [of "float_val rads"] one by linarith
  define top :: real where "top = 7074237752028439 / 2 ^ 52"
  have v: "0 \<le> float_val rads" "float_val rads \<le> top"
    unfolding top_def using assms by (rule rads_in_quadrant)+
  have top: "top < pi / 2" "tan top \<le> 4 * 10 ^ 15"
    using tan_near_half_pi [OF top_def] by simp_all
  have "tan 0 \<le> tan (float_val rads)"
    using v top(1) by (intro tan_mono_le) simp_all
  moreover have "tan (float_val rads) \<le> tan top"
    using v top(1) by (intro tan_mono_le) simp_all
  moreover have "(4 * 10 ^ 15 :: real) < 2 ^ 1023" by simp
  ultimately show "\<bar>tan (float_val rads)\<bar> < 2 ^ 1023"
    using top(2) by simp
qed

lemma range_safe_results:
  assumes "lib_range_safe L" and "0 \<le> hw" and "hw \<le> 375" and "hwians_to_rads hw = Inr rads"
  shows "\<exists>y. math_sin L rads = Inr y \<and> is_finite y"
    and "\<exists>y. math_cos L rads = Inr y \<and> is_finite y"
    and "\<exists>y. math_tan L rads = Inr y \<and> is_finite y"
  using assms(1) rads_in_quadrant(1) [OF assms(2-4)] rads_functions_in_range [OF assms(2-4)]
  unfolding lib_range_safe_def range_safe_def by blast+

lemma range_safe_returns:
  assumes "lib_range_safe L"
  shows "returns_at_units (math_sin L)" and "returns_at_units (math_cos L)"
    and "returns_at_units (math_tan L)"
  using range_safe_results [OF assms] unfolding returns_at_units_def by blast+

lemma demo_lib_range_safe: "lib_range_safe demo_lib"
  by (simp add: lib_range_safe_def range_safe_def demo_lib_def)

lemma range_safe_run:
  assumes "lib_range_safe L" and "str_one_line L"
  shows "snd (main L) = None" and "length (lines_of (fst (main L))) = 1134"
proof -
  note ret = range_safe_returns [OF assms(1)]
  show "snd (main L) = None"
    by (simp add: main_ok [OF ret])
  show "length (lines_of (fst (main L))) = 1134"
    by (simp add: main_lines [OF ret assms(2)])
qed

lemma range_safe_row:
  assumes "lib_range_safe L" and "str_one_line L" and p: "p < 3"
    and hw: "0 \<le> hw" "hw \<le> 375"
  shows "\<exists>r rads degs.
     hwians_to_rads hw = Inr rads \<and> hwians_to_degs hw = Inr degs
     \<and> ([math_sin L, math_cos L, math_tan L] ! p) rads = Inr r \<and> is_finite r
     \<and> lines_of (fst (main L)) ! (378 * p + 2 + nat hw) = format_row L r hw rads degs"
proof -
  note ret = range_safe_returns [OF assms(1)]
  from data_line_at [OF ret assms(2) p hw] obtain r rads degs
    where rads: "hwians_to_rads hw = Inr rads" and degs: "hwians_to_degs hw = Inr degs"
      and r: "([math_sin L, math_cos L, math_tan L] ! p) rads = Inr r"
      and line: "lines_of (fst (main L)) ! (378 * p + 2 + nat hw)
        = format_row L r hw rads degs"
    by blast
  from p consider "p = 0" | "p = 1" | "p = 2" by linarith
  then have "is_finite r"
    using r range_safe_results [OF assms(1) hw rads] by cases auto
  with rads degs r line show ?thesis by blast
qed

text \<open>
  C9. With a library whose routines stay in range (they return a finite float wherever
  the sine, cosine or tangent itself is below \<open>2^1023\<close> in magnitude) and whose float
  text is one line, no iteration raises: the program ends without an exception after
  1134 lines, 6 headers and 1128 data lines, and the trig value on every data line is
  a finite float. The radians of every unit lie between 0 and the float just below
  \<open>pi / 2\<close>, where the tangent is at most \<open>4 * 10^15\<close>.
\<close>

theorem all_values_finite:
  assumes "lib_range_safe L" and "str_one_line L"
  shows "snd (main L) = None
     \<and> length (lines_of (fst (main L))) = 1134
     \<and> (\<forall>p<3. \<forall>hw\<in>{0..375}. \<exists>r rads degs.
          hwians_to_rads hw = Inr rads \<and> hwians_to_degs hw = Inr degs
          \<and> ([math_sin L, math_cos L, math_tan L] ! p) rads = Inr r \<and> is_finite r
          \<and> lines_of (fst (main L)) ! (378 * p + 2 + nat hw) = format_row L r hw rads degs)"
  using range_safe_run [OF assms] range_safe_row [OF assms] by simp

theorem all_values_finite_witness:
  "lib_range_safe demo_lib \<and> str_one_line demo_lib
   \<and> snd (main demo_lib) = None \<and> length (lines_of (fst (main demo_lib))) = 1134
   \<and> (\<exists>r rads degs.
         hwians_to_rads 375 = Inr rads \<and> hwians_to_degs 375 = Inr degs
         \<and> math_tan demo_lib rads = Inr r \<and> is_finite r
         \<and> lines_of (fst (main demo_lib)) ! 1133 = format_row demo_lib r 375 rads degs)"
proof -
  have p: "(2::nat) < 3" and hw: "(375::int) \<in> {0..375}"
    by simp_all
  from all_values_finite [OF demo_lib_range_safe demo_str_one_line]
  have "snd (main demo_lib) = None" and "length (lines_of (fst (main demo_lib))) = 1134"
    and "\<forall>p<3. \<forall>hw\<in>{0..375}. \<exists>r rads degs.
          hwians_to_rads hw = Inr rads \<and> hwians_to_degs hw = Inr degs
          \<and> ([math_sin demo_lib, math_cos demo_lib, math_tan demo_lib] ! p) rads = Inr r
          \<and> is_finite r
          \<and> lines_of (fst (main demo_lib)) ! (378 * p + 2 + nat hw)
              = format_row demo_lib r hw rads degs"
    by blast+
  moreover from this(3) p hw have "\<exists>r rads degs.
          hwians_to_rads 375 = Inr rads \<and> hwians_to_degs 375 = Inr degs
          \<and> ([math_sin demo_lib, math_cos demo_lib, math_tan demo_lib] ! 2) rads = Inr r
          \<and> is_finite r
          \<and> lines_of (fst (main demo_lib)) ! (378 * 2 + 2 + nat 375)
              = format_row demo_lib r 375 rads degs"
    by blast
  ultimately show ?thesis
    using demo_lib_range_safe demo_str_one_line by simp
qed

lemma format_int_375: "format_int 3 375 = ''375''"
  by code_simp

text \<open>
  C4. With a library as for C9 whose tangent routine is moreover roughly right at the
  radians of unit 375 (within half of the tangent itself), the trig value on the
  tangent line of unit 375, the last line of the output, is the float the routine
  returned, passed through as it is: a finite float between \<open>1.5 * 10^15\<close> and
  \<open>6 * 10^15\<close>, the tangent itself lying between \<open>3.1 * 10^15\<close> and \<open>4 * 10^15\<close>. The
  program ends without an exception.
\<close>

theorem tangent_at_unit_375:
  assumes "lib_range_safe L" and "str_one_line L"
    and "\<forall>rads. hwians_to_rads 375 = Inr rads \<longrightarrow> tan_accurate_at L rads"
  shows "\<exists>r rads degs.
     hwians_to_rads 375 = Inr rads \<and> hwians_to_degs 375 = Inr degs
     \<and> math_tan L rads = Inr r \<and> is_finite r
     \<and> 31 * 10 ^ 14 \<le> tan (float_val rads) \<and> tan (float_val rads) \<le> 4 * 10 ^ 15
     \<and> 15 * 10 ^ 14 \<le> float_val r \<and> float_val r \<le> 6 * 10 ^ 15
     \<and> lines_of (fst (main L)) ! 1133
         = float_str L r @ [tab] @ ''; HW:375 Rads:'' @ float_str L rads
             @ '' Degs:'' @ float_str L degs
     \<and> length (lines_of (fst (main L))) = 1134
     \<and> snd (main L) = None"
proof -
  define rads where "rads = Finite False 7074237752028439 (- 52)"
  have rads: "hwians_to_rads 375 = Inr rads"
    by (simp add: rads_def unit_375_converted)
  note fin = range_safe_run [OF assms(1,2)]
  from range_safe_row [OF assms(1,2), of 2 375] rads
  obtain r degs where degs: "hwians_to_degs 375 = Inr degs"
    and r: "math_tan L rads = Inr r" "is_finite r"
    and line: "lines_of (fst (main L)) ! 1133 = format_row L r 375 rads degs"
    by auto
  have t: "31 * 10 ^ 14 \<le> tan (float_val rads)" "tan (float_val rads) \<le> 4 * 10 ^ 15"
    using tan_near_half_pi(2,3) [OF refl] by (simp_all add: rads_def float_val_unit_375)
  have t': "3100000000000000 \<le> tan (float_val rads)"
    "tan (float_val rads) \<le> 4000000000000000"
    using t by simp_all
  from assms(3) rads r
  have "\<bar>float_val r - tan (float_val rads)\<bar> \<le> \<bar>tan (float_val rads)\<bar> / 2"
    unfolding tan_accurate_at_def by blast
  then have "float_val r - tan (float_val rads) \<le> tan (float_val rads) / 2"
    and "tan (float_val rads) - float_val r \<le> tan (float_val rads) / 2"
    using t' by linarith+
  then have "1500000000000000 \<le> float_val r" and "float_val r \<le> 6000000000000000"
    using t' by linarith+
  then have v: "15 * 10 ^ 14 \<le> float_val r" "float_val r \<le> 6 * 10 ^ 15"
    by simp_all
  have "format_row L r 375 rads degs
      = float_str L r @ [tab] @ ''; HW:375 Rads:'' @ float_str L rads
          @ '' Degs:'' @ float_str L degs"
    by (simp add: format_row_def format_int_375)
  with line have "lines_of (fst (main L)) ! 1133
      = float_str L r @ [tab] @ ''; HW:375 Rads:'' @ float_str L rads
          @ '' Degs:'' @ float_str L degs"
    by (simp only:)
  with rads degs r t v fin show ?thesis by blast
qed

lemma demo_tan_accurate:
  "\<forall>rads. hwians_to_rads 375 = Inr rads \<longrightarrow> tan_accurate_at demo_lib rads"
proof (intro allI impI)
  fix rads
  assume "hwians_to_rads 375 = Inr rads"
  then have rads: "rads = Finite False 7074237752028439 (- 52)"
    by (simp add: unit_375_converted)
  have t: "31 * 10 ^ 14 \<le> tan (float_val rads)" "tan (float_val rads) \<le> 4 * 10 ^ 15"
    using tan_near_half_pi(2,3) [OF refl] by (simp_all add: rads float_val_unit_375)
  have "float_val (Finite False (pow2 52) (- 1)) = 2 ^ 51"
    by (simp add: float_val_def pow2_eq)
  with t show "tan_accurate_at demo_lib rads"
    by (simp add: tan_accurate_at_def demo_lib_def)
qed

theorem tangent_at_unit_375_witness:
  "lib_range_safe demo_lib \<and> str_one_line demo_lib
   \<and> hwians_to_rads 375 = Inr (Finite False 7074237752028439 (- 52))
   \<and> tan_accurate_at demo_lib (Finite False 7074237752028439 (- 52))
   \<and> (\<exists>r rads degs.
        hwians_to_rads 375 = Inr rads \<and> hwians_to_degs 375 = Inr degs
        \<and> math_tan demo_lib rads = Inr r \<and> is_finite r
        \<and> 15 * 10 ^ 14 \<le> float_val r \<and> float_val r \<le> 6 * 10 ^ 15
        \<and> lines_of (fst (main demo_lib)) ! 1133
            = float_str demo_lib r @ [tab] @ ''; HW:375 Rads:'' @ float_str demo_lib rads
                @ '' Degs:'' @ float_str demo_lib degs)"
proof -
  from tangent_at_unit_375 [OF demo_lib_range_safe demo_str_one_line demo_tan_accurate]
  have "\<exists>r rads degs.
        hwians_to_rads 375 = Inr rads \<and> hwians_to_degs 375 = Inr degs
        \<and> math_tan demo_lib rads = Inr r \<and> is_finite r
        \<and> 15 * 10 ^ 14 \<le> float_val r \<and> float_val r \<le> 6 * 10 ^ 15
        \<and> lines_of (fst (main demo_lib)) ! 1133
            = float_str demo_lib r @ [tab] @ ''; HW:375 Rads:'' @ float_str demo_lib rads
                @ '' Degs:'' @ float_str demo_lib degs"
    by blast
  with demo_lib_range_safe demo_str_one_line demo_tan_accurate unit_375_converted
  show ?thesis
    by blast
qed

end
